theory Spec2Isabelle
  imports Complex_Main "HOL-Library.Word"
begin

section \<open>Data model of multivec-mono.hpp\<close>

text \<open>
  The source computes on \<^verbatim>\<open>float\<close>. The code of distance.cpp is embedded over an
  arbitrary number type \<open>'f\<close> of which only the operation and comparison symbols are
  used (\<open>0\<close>, \<open>1\<close>, \<open>+\<close>, \<open>-\<close>, \<open>*\<close>, \<open>/\<close>, \<open><\<close>, \<open>\<le>\<close>) and of which no law is
  assumed: what is proved of the embedding holds for every arithmetic, IEEE rounding,
  infinities and NaN included. Where a property needs laws of the arithmetic, they are
  hypotheses that say which.
\<close>

type_synonym 'f vec = "'f list"
type_synonym 'f mat = "'f vec list"

text \<open>
  The exceptions of distance.cpp are all \<^verbatim>\<open>std::runtime_error\<close>:
  \<open>NotInVocabulary\<close> is the one \<^verbatim>\<open>wordVec\<close> throws for an unknown word,
  \<open>LengthMismatch\<close> is \<^verbatim>\<open>runtime_error("input sequences don't have the same size")\<close> and
  \<open>AllOOV\<close> is \<^verbatim>\<open>runtime_error("all word pairs are unknown (OOV)")\<close>.
  \<open>OutOfBounds\<close> is not an exception: it marks a \<^verbatim>\<open>vector::operator[]\<close> read past the
  end, which C++ leaves undefined. The embedding stops the function there.
\<close>

datatype error = NotInVocabulary string | AllOOV | LengthMismatch | OutOfBounds

text \<open>
  \<^verbatim>\<open>struct HuffmanNode\<close>. The fields that are not pointers form the record; \<^verbatim>\<open>left\<close> and
  \<^verbatim>\<open>right\<close> are set by the constructor of internal nodes only, so a node comes in two
  shapes. \<^verbatim>\<open>int count\<close> is a 32-bit word, read as signed with \<open>sint\<close>; the indices are
  only stored here and are kept as \<open>int\<close>.
\<close>

record node_info =
  word :: string
  code :: "int list"
  parents :: "int list"
  index :: int
  count :: "32 word"
  is_leaf :: bool
  is_unk :: bool
  is_sent_id :: bool

datatype HuffmanNode =
    Leaf (info: node_info)
  | Internal (info: node_info) (left: HuffmanNode) (right: HuffmanNode)

text \<open>\<^verbatim>\<open>HuffmanNode(int index, const string& word, bool is_sent_id = false)\<close>\<close>

definition HuffmanNode_leaf :: "int \<Rightarrow> string \<Rightarrow> bool \<Rightarrow> HuffmanNode" where
  "HuffmanNode_leaf idx w sent_id =
     Leaf \<lparr>word = w, code = [], parents = [], index = idx, count = 1,
           is_leaf = True, is_unk = False, is_sent_id = sent_id\<rparr>"

text \<open>\<^verbatim>\<open>HuffmanNode(int index, HuffmanNode* left, HuffmanNode* right)\<close>\<close>

definition HuffmanNode_internal :: "int \<Rightarrow> HuffmanNode \<Rightarrow> HuffmanNode \<Rightarrow> HuffmanNode" where
  "HuffmanNode_internal idx l r =
     Internal \<lparr>word = [], code = [], parents = [], index = idx,
               count = count (info l) + count (info r),
               is_leaf = False, is_unk = False, is_sent_id = False\<rparr> l r"

text \<open>\<^verbatim>\<open>struct Config\<close>, with the defaults of its constructor.\<close>

record 'f Config =
  starting_alpha :: 'f
  dimension :: int
  min_count :: int
  max_iterations :: int
  window_size :: int
  n_threads :: int
  subsampling :: 'f
  verbose :: bool
  hierarchical_softmax :: bool
  skip_gram :: bool
  negative :: int
  sent_vector :: bool
  freeze :: bool

definition Config_default :: "real Config" where
  "Config_default =
     \<lparr>starting_alpha = 5 / 100, dimension = 100, min_count = 5, max_iterations = 5,
      window_size = 5, n_threads = 4, subsampling = 1 / 1000, verbose = False,
      hierarchical_softmax = False, skip_gram = False, negative = 5,
      sent_vector = False, freeze = False\<rparr>"

text \<open>
  The data members of \<^verbatim>\<open>class MonolingualModel\<close>. The \<^verbatim>\<open>long long\<close> counters are not
  computed with in distance.cpp and are kept as \<open>int\<close>; the unigram table holds the
  nodes its pointers refer to.
\<close>

record 'f MonolingualModel =
  input_weights :: "'f mat"
  output_weights :: "'f mat"
  output_weights_hs :: "'f mat"
  sent_weights :: "'f mat"
  online_sent_weights :: "'f mat"
  training_words :: int
  training_lines :: int
  words_processed :: int
  alpha :: 'f
  config :: "'f Config"
  vocabulary :: "string \<rightharpoonup> HuffmanNode"
  unigram_table :: "HuffmanNode list"

section \<open>Functions that distance.cpp calls and that are defined elsewhere\<close>

text \<open>
  distance.cpp calls four functions whose definitions are not part of the sources at
  hand: \<^verbatim>\<open>split\<close> (declared at multivec-mono.hpp:23), the const method \<^verbatim>\<open>wordVec\<close>
  (declared at multivec-mono.hpp:195), and \<^verbatim>\<open>dot\<close> and \<^verbatim>\<open>norm\<close> of the vector class.
  \<^verbatim>\<open>res / n\<close> converts the \<^verbatim>\<open>int n\<close> to \<^verbatim>\<open>float\<close>. They are parameters of the embedding.
  \<open>wordVec\<close> reads the model and either yields a vector or throws a
  \<^verbatim>\<open>runtime_error\<close> (\<open>None\<close>), as the comment above \<^verbatim>\<open>similarity\<close> says.
\<close>

record 'f prims =
  split :: "string \<Rightarrow> string list"
  wordVec :: "'f MonolingualModel \<Rightarrow> string \<Rightarrow> int \<Rightarrow> 'f vec option"
  dot :: "'f vec \<Rightarrow> 'f vec \<Rightarrow> 'f"
  norm :: "'f vec \<Rightarrow> 'f"
  int_to_float :: "int \<Rightarrow> 'f"

section \<open>distance.cpp: similarity, distance, similarityNgrams\<close>

text \<open>
  Every method takes the model and hands it back beside its result, so that what a call
  does to the model is part of the embedding.
\<close>

definition similarity ::
  "('f::{one,times,inverse}) prims \<Rightarrow> 'f MonolingualModel \<Rightarrow> string \<Rightarrow> string \<Rightarrow> int
     \<Rightarrow> (error + 'f) \<times> 'f MonolingualModel" where
  "similarity P m word1 word2 policy =
     (if word1 = word2 then (Inr 1, m)
      else
        (case wordVec P m word1 policy of
           None \<Rightarrow> (Inl (NotInVocabulary word1), m)
         | Some v1 \<Rightarrow>
             (case wordVec P m word2 policy of
                None \<Rightarrow> (Inl (NotInVocabulary word2), m)
              | Some v2 \<Rightarrow> (Inr (dot P v1 v2 / (norm P v1 * norm P v2)), m))))"

definition distance ::
  "('f::{one,times,inverse,minus}) prims \<Rightarrow> 'f MonolingualModel \<Rightarrow> string \<Rightarrow> string \<Rightarrow> int
     \<Rightarrow> (error + 'f) \<times> 'f MonolingualModel" where
  "distance P m word1 word2 policy =
     (case similarity P m word1 word2 policy of
        (Inl e, m') \<Rightarrow> (Inl e, m')
      | (Inr s, m') \<Rightarrow> (Inr (1 - s), m'))"

text \<open>
  The loop of \<^verbatim>\<open>similarityNgrams\<close>, from position \<open>i\<close> with the running sum \<open>res\<close> and
  the running count \<open>n\<close>. \<^verbatim>\<open>words1[i]\<close> is in range by the loop condition; \<^verbatim>\<open>words2[i]\<close>
  is read with no check. \<^verbatim>\<open>catch (runtime_error) {}\<close> swallows whatever \<open>similarity\<close>
  throws and goes on to the next position. \<^verbatim>\<open>int n\<close> counts at most one per token of
  \<^verbatim>\<open>seq1\<close> and is kept as \<open>int\<close>.
\<close>

function ngrams_loop ::
  "('f::{one,times,inverse,plus}) prims \<Rightarrow> 'f MonolingualModel \<Rightarrow> string list \<Rightarrow> string list
     \<Rightarrow> int \<Rightarrow> nat \<Rightarrow> 'f \<Rightarrow> int \<Rightarrow> (error + 'f \<times> int) \<times> 'f MonolingualModel" where
  "ngrams_loop P m words1 words2 policy i res n =
     (if i < length words1 then
        (if length words2 \<le> i then (Inl OutOfBounds, m)
         else
           (case similarity P m (words1 ! i) (words2 ! i) policy of
              (Inr s, m') \<Rightarrow> ngrams_loop P m' words1 words2 policy (i + 1) (res + s) (n + 1)
            | (Inl e, m') \<Rightarrow> ngrams_loop P m' words1 words2 policy (i + 1) res n))
      else (Inr (res, n), m))"
  by pat_completeness auto
termination
  by (relation "measure (\<lambda>(P, m, words1, words2, policy, i, res, n). length words1 - i)") auto

declare ngrams_loop.simps [simp del]

definition similarityNgrams ::
  "('f::{zero,one,times,inverse,plus}) prims \<Rightarrow> 'f MonolingualModel \<Rightarrow> string \<Rightarrow> string \<Rightarrow> int
     \<Rightarrow> (error + 'f) \<times> 'f MonolingualModel" where
  "similarityNgrams P m seq1 seq2 policy =
     (let words1 = split P seq1;
          words2 = split P seq2
      in if length words2 \<noteq> length words2 then (Inl LengthMismatch, m)
         else
           (case ngrams_loop P m words1 words2 policy 0 0 0 of
              (Inl e, m') \<Rightarrow> (Inl e, m')
            | (Inr (res, n), m') \<Rightarrow>
                if n = 0 then (Inl AllOOV, m') else (Inr (res / int_to_float P n), m')))"

text \<open>
  The value computed at one position of \<^verbatim>\<open>similarityNgrams\<close>: the similarity of the pair,
  or nothing where \<open>similarity\<close> throws. \<open>tally\<close> is one round of the loop on the sum
  and the count.
\<close>

definition pair_similarity ::
  "('f::{one,times,inverse}) prims \<Rightarrow> 'f MonolingualModel \<Rightarrow> int \<Rightarrow> string \<times> string
     \<Rightarrow> 'f option" where
  "pair_similarity P m policy ab =
     (case fst (similarity P m (fst ab) (snd ab) policy) of
        Inr s \<Rightarrow> Some s
      | Inl e \<Rightarrow> None)"

definition tally :: "('f::plus) \<times> int \<Rightarrow> 'f option \<Rightarrow> 'f \<times> int" where
  "tally acc r = (case r of Some s \<Rightarrow> (fst acc + s, snd acc + 1) | None \<Rightarrow> acc)"

section \<open>distance.cpp: normalizeWeights\<close>

text \<open>
  \<^verbatim>\<open>normalizeWeights\<close> compares and divides, so besides the operation symbols the number
  type carries the two comparison symbols \<open><\<close> and \<open>\<le>\<close>, again with no law assumed.
  \<^verbatim>\<open>std::min(a, b)\<close> is \<^verbatim>\<open>(b < a) ? b : a\<close> and \<^verbatim>\<open>std::max(a, b)\<close> is
  \<^verbatim>\<open>(a < b) ? b : a\<close>. \<^verbatim>\<open>a != b\<close> on floats is the negation of \<^verbatim>\<open>a == b\<close>, and
  \<^verbatim>\<open>a == b\<close> holds exactly when \<^verbatim>\<open>a <= b\<close> and \<^verbatim>\<open>b <= a\<close> both do (neither does when
  an operand is NaN, so that \<^verbatim>\<open>NaN != NaN\<close> is true).
\<close>

definition std_min :: "('f::ord) \<Rightarrow> 'f \<Rightarrow> 'f" where
  "std_min a b = (if b < a then b else a)"

definition std_max :: "('f::ord) \<Rightarrow> 'f \<Rightarrow> 'f" where
  "std_max a b = (if a < b then b else a)"

definition float_ne :: "('f::ord) \<Rightarrow> 'f \<Rightarrow> bool" where
  "float_ne a b = (\<not> (a \<le> b \<and> b \<le> a))"

text \<open>
  The inner loop of the first pass (lines 56 to 59), for one row \<^verbatim>\<open>weights[i]\<close>: it
  lowers \<^verbatim>\<open>min_values[j]\<close> and raises \<^verbatim>\<open>max_values[j]\<close> for every \<open>j\<close> below
  \<^verbatim>\<open>dim\<close> (written \<open>dims\<close>).
\<close>

definition scan_row :: "nat \<Rightarrow> ('f::ord) vec \<Rightarrow> 'f vec \<times> 'f vec \<Rightarrow> 'f vec \<times> 'f vec" where
  "scan_row dims row mm =
     fold (\<lambda>j (min_values, max_values).
             (min_values[j := std_min (min_values ! j) (row ! j)],
              max_values[j := std_max (max_values ! j) (row ! j)]))
          [0..<dims] mm"

text \<open>The inner loop of the second pass (lines 63 to 67), for one row.\<close>

definition scale_row ::
  "nat \<Rightarrow> ('f::{ord,minus,inverse}) vec \<Rightarrow> 'f vec \<Rightarrow> 'f vec \<Rightarrow> 'f vec" where
  "scale_row dims min_values max_values row =
     fold (\<lambda>j r. if float_ne (max_values ! j) (min_values ! j)
                  then r[j := (r ! j - min_values ! j) / (max_values ! j - min_values ! j)]
                  else r)
          [0..<dims] row"

text \<open>
  \<^verbatim>\<open>void normalizeWeights(mat& weights)\<close>. The result is the matrix the reference
  parameter holds on return. \<^verbatim>\<open>weights[i][j]\<close> is read for every \<open>j\<close> below the length
  of row 0 with no check, so a later row that is shorter is read past its end.
\<close>

definition normalizeWeights :: "('f::{ord,minus,inverse}) mat \<Rightarrow> error + 'f mat" where
  "normalizeWeights weights =
     (if weights = [] then Inr weights
      else
        (let dims = length (weights ! 0) in
         if list_ex (\<lambda>row. length row < dims) (drop 1 weights) then Inl OutOfBounds
         else
           (let (min_values, max_values) =
                  fold (scan_row dims) (drop 1 weights) (weights ! 0, weights ! 0)
            in Inr (map (scale_row dims min_values max_values) weights))))"

text \<open>\<^verbatim>\<open>void MonolingualModel::normalizeWeights()\<close>\<close>

definition MonolingualModel_normalizeWeights ::
  "('f::{ord,minus,inverse}) MonolingualModel \<Rightarrow> error + 'f MonolingualModel" where
  "MonolingualModel_normalizeWeights m =
     (case normalizeWeights (input_weights m) of
        Inl e \<Rightarrow> Inl e
      | Inr w_in \<Rightarrow>
          (case normalizeWeights (output_weights m) of
             Inl e \<Rightarrow> Inl e
           | Inr w_out \<Rightarrow>
               (case normalizeWeights (output_weights_hs m) of
                  Inl e \<Rightarrow> Inl e
                | Inr w_hs \<Rightarrow>
                    (case normalizeWeights (sent_weights m) of
                       Inl e \<Rightarrow> Inl e
                     | Inr w_sent \<Rightarrow>
                         Inr (m\<lparr>input_weights := w_in, output_weights := w_out,
                                output_weights_hs := w_hs, sent_weights := w_sent\<rparr>)))))"

text \<open>
  What normalization per column means. A matrix is rectangular when every row is as
  long as row 0. A set of numbers is totally ordered when \<open>\<le>\<close> compares any two of them,
  is transitive on them and \<open><\<close> is its strict part (no NaN among them). The arithmetic
  is regular on a set of numbers when, for any two of them \<open>a < b\<close>, the quotient
  \<open>(b - a) / (b - a)\<close> is 1, \<open>(a - a) / (b - a)\<close> is 0 and \<open>x \<mapsto> (x - a) / (b - a)\<close> is
  monotone on the set: so it is in exact arithmetic, and in floating point as long as
  \<open>b - a\<close> does not overflow.

  A column \<open>c\<close> has become \<open>c'\<close>, with \<open>lo\<close> and \<open>hi\<close> the running \<^verbatim>\<open>std::min\<close> and
  \<^verbatim>\<open>std::max\<close> of \<open>c\<close> as the first pass computes them:
  \<^item> if \<^verbatim>\<open>hi != lo\<close> every entry \<open>x\<close> has become \<open>(x - lo) / (hi - lo)\<close>, computed in the
    arithmetic at hand, and otherwise the column is unchanged;
  \<^item> if \<open>c\<close> is totally ordered, \<open>lo\<close> and \<open>hi\<close> are its least and greatest entries;
  \<^item> if moreover the arithmetic is regular on \<open>c\<close> and \<^verbatim>\<open>hi != lo\<close>, then 0 and 1 are
    entries of \<open>c'\<close> and every entry of \<open>c'\<close> lies between them.
\<close>

definition column :: "'f mat \<Rightarrow> nat \<Rightarrow> 'f list" where
  "column W j = map (\<lambda>row. row ! j) W"

definition rectangular :: "'f mat \<Rightarrow> bool" where
  "rectangular W = list_all (\<lambda>row. length row = length (W ! 0)) W"

definition totally_ordered :: "('f::ord) set \<Rightarrow> bool" where
  "totally_ordered A =
     ((\<forall>a\<in>A. \<forall>b\<in>A. (a \<le> b \<or> b \<le> a) \<and> (a < b \<longleftrightarrow> a \<le> b \<and> \<not> b \<le> a)) \<and>
      (\<forall>a\<in>A. \<forall>b\<in>A. \<forall>c\<in>A. a \<le> b \<and> b \<le> c \<longrightarrow> a \<le> c))"

definition regular_scaling :: "('f::{zero,one,ord,minus,inverse}) set \<Rightarrow> bool" where
  "regular_scaling A =
     (\<forall>a\<in>A. \<forall>b\<in>A. a < b \<longrightarrow>
        (b - a) / (b - a) = 1 \<and> (a - a) / (b - a) = 0 \<and>
        (\<forall>x\<in>A. \<forall>y\<in>A. x \<le> y \<longrightarrow> (x - a) / (b - a) \<le> (y - a) / (b - a)))"

fun column_scaled :: "('f::{zero,one,ord,minus,inverse}) list \<Rightarrow> 'f list \<Rightarrow> bool" where
  "column_scaled [] c' = (c' = [])"
| "column_scaled (x0 # xs) c' =
     (let c = x0 # xs;
          lo = fold (\<lambda>x acc. std_min acc x) xs x0;
          hi = fold (\<lambda>x acc. std_max acc x) xs x0
      in (if float_ne hi lo then c' = map (\<lambda>x. (x - lo) / (hi - lo)) c else c' = c) \<and>
         (totally_ordered (set c) \<longrightarrow>
            lo \<in> set c \<and> hi \<in> set c \<and> (\<forall>x\<in>set c. lo \<le> x \<and> x \<le> hi)) \<and>
         (totally_ordered (set c) \<and> regular_scaling (set c) \<and> float_ne hi lo \<longrightarrow>
            0 \<in> set c' \<and> 1 \<in> set c' \<and> (\<forall>y\<in>set c'. 0 \<le> y \<and> y \<le> 1)))"

definition normalized_per_column ::
  "('f::{zero,one,ord,minus,inverse}) mat \<Rightarrow> 'f mat \<Rightarrow> bool" where
  "normalized_per_column W W' =
     (map length W' = map length W \<and>
      list_all (\<lambda>j. column_scaled (column W j) (column W' j))
        [0..<(if W = [] then 0 else length (W ! 0))])"

section \<open>The Huffman tree\<close>

text \<open>\<^verbatim>\<open>HuffmanNode::comp\<close> (multivec-mono.hpp, lines 77 to 79), on signed counts.\<close>

definition HuffmanNode_comp :: "HuffmanNode \<Rightarrow> HuffmanNode \<Rightarrow> bool" where
  "HuffmanNode_comp v1 v2 = (sint (count (info v1)) > sint (count (info v2)))"

text \<open>
  Modelled from the spec: \<^verbatim>\<open>createBinaryTree\<close>, declared at multivec-mono.hpp:165 and
  defined outside the sources at hand. Spec section 4.2: "Standard two-queue Huffman:
  sort leaves by descending count; maintain a leaf cursor and an internal-node cursor;
  repeatedly select the two current minima (from the front of either queue) and merge
  into a new internal node whose count is the sum. This yields V-1 internal nodes
  indexed 0..V-2 in construction order." The internal node is built by the constructor
  of the source, \<open>HuffmanNode_internal\<close>.

  The first queue holds the leaves still unmerged, least count first (the sorted array
  read from its far end); the second holds the internal nodes in construction order.
  The spec does not say which queue wins a tie; here the leaf does. With a single word
  the tree is that leaf; with no word there is no tree.
\<close>

fun pop_min ::
  "HuffmanNode list \<Rightarrow> HuffmanNode list
     \<Rightarrow> (HuffmanNode \<times> HuffmanNode list \<times> HuffmanNode list) option" where
  "pop_min [] [] = None"
| "pop_min (l # ls) [] = Some (l, ls, [])"
| "pop_min [] (n # ns) = Some (n, [], ns)"
| "pop_min (l # ls) (n # ns) =
     (if HuffmanNode_comp l n then Some (n, l # ls, ns) else Some (l, ls, n # ns))"

function merge_loop ::
  "HuffmanNode list \<Rightarrow> HuffmanNode list \<Rightarrow> int \<Rightarrow> HuffmanNode option" where
  "merge_loop ls ns idx =
     (case pop_min ls ns of
        None \<Rightarrow> None
      | Some (a, ls1, ns1) \<Rightarrow>
          (case pop_min ls1 ns1 of
             None \<Rightarrow> Some a
           | Some (b, ls2, ns2) \<Rightarrow>
               merge_loop ls2 (ns2 @ [HuffmanNode_internal idx a b]) (idx + 1)))"
  by pat_completeness auto
termination
  by (relation "measure (\<lambda>(ls, ns, idx). length ls + length ns)")
     (auto elim!: pop_min.elims split: if_splits)

declare merge_loop.simps [simp del]

definition createBinaryTree :: "HuffmanNode list \<Rightarrow> HuffmanNode option" where
  "createBinaryTree nodes =
     merge_loop (rev (sort_key (\<lambda>v. - sint (count (info v))) nodes)) [] 0"

text \<open>
  The counts of the leaves below a node, left to right; all the nodes of a tree; the
  nodes that have no children; and the property of a tree that every internal node
  carries the sum of the counts of the leaves below it.
\<close>

fun leaf_counts :: "HuffmanNode \<Rightarrow> 32 word list" where
  "leaf_counts (Leaf f) = [count f]"
| "leaf_counts (Internal f l r) = leaf_counts l @ leaf_counts r"

fun subtrees :: "HuffmanNode \<Rightarrow> HuffmanNode list" where
  "subtrees (Leaf f) = [Leaf f]"
| "subtrees (Internal f l r) = Internal f l r # subtrees l @ subtrees r"

fun childless :: "HuffmanNode \<Rightarrow> bool" where
  "childless (Leaf f) = True"
| "childless (Internal f l r) = False"

fun sums_ok :: "HuffmanNode \<Rightarrow> bool" where
  "sums_ok (Leaf f) = True"
| "sums_ok (Internal f l r) =
     (count f = sum_list (leaf_counts l @ leaf_counts r) \<and> sums_ok l \<and> sums_ok r)"

section \<open>A number type with the special values of floating point\<close>

text \<open>
  The embedding of distance.cpp fixes no arithmetic. To run it where floating point
  leaves the real numbers, \<open>fnum\<close> is a number type with the special values of IEEE
  arithmetic: finite numbers, the two infinities and NaN. A result beyond the largest
  finite binary32 number \<open>FLT_MAX = (2 - 2^-23) * 2^127\<close> is an infinity; a nonzero
  number divided by zero is an infinity; \<open>0 / 0\<close>, \<open>\<infinity> - \<infinity>\<close>, \<open>\<infinity> / \<infinity>\<close> and \<open>0 * \<infinity>\<close> are NaN;
  NaN propagates and every comparison with NaN is false. Results within the range are
  exact: rounding is not part of the type, and neither is the sign of zero.
\<close>

definition FLT_MAX :: real where
  "FLT_MAX = 340282346638528859811704183484516925440"

datatype fnum = Fin real | PInf | NInf | NaN

definition overflow :: "real \<Rightarrow> fnum" where
  "overflow r = (if FLT_MAX < r then PInf else if r < - FLT_MAX then NInf else Fin r)"

instantiation fnum :: "{zero,one,plus,uminus,minus,times,inverse,ord}"
begin

definition zero_fnum :: fnum where "zero_fnum = Fin 0"

definition one_fnum :: fnum where "one_fnum = Fin 1"

fun plus_fnum :: "fnum \<Rightarrow> fnum \<Rightarrow> fnum" where
  "plus_fnum (Fin a) (Fin b) = overflow (a + b)"
| "plus_fnum NaN y = NaN"
| "plus_fnum x NaN = NaN"
| "plus_fnum PInf NInf = NaN"
| "plus_fnum NInf PInf = NaN"
| "plus_fnum PInf y = PInf"
| "plus_fnum x PInf = PInf"
| "plus_fnum NInf y = NInf"
| "plus_fnum x NInf = NInf"

fun uminus_fnum :: "fnum \<Rightarrow> fnum" where
  "uminus_fnum (Fin a) = Fin (- a)"
| "uminus_fnum PInf = NInf"
| "uminus_fnum NInf = PInf"
| "uminus_fnum NaN = NaN"

definition minus_fnum :: "fnum \<Rightarrow> fnum \<Rightarrow> fnum" where
  "minus_fnum x y = x + (- y)"

fun times_fnum :: "fnum \<Rightarrow> fnum \<Rightarrow> fnum" where
  "times_fnum (Fin a) (Fin b) = overflow (a * b)"
| "times_fnum NaN y = NaN"
| "times_fnum x NaN = NaN"
| "times_fnum PInf (Fin b) = (if b = 0 then NaN else if 0 < b then PInf else NInf)"
| "times_fnum NInf (Fin b) = (if b = 0 then NaN else if 0 < b then NInf else PInf)"
| "times_fnum (Fin a) PInf = (if a = 0 then NaN else if 0 < a then PInf else NInf)"
| "times_fnum (Fin a) NInf = (if a = 0 then NaN else if 0 < a then NInf else PInf)"
| "times_fnum PInf PInf = PInf"
| "times_fnum NInf NInf = PInf"
| "times_fnum PInf NInf = NInf"
| "times_fnum NInf PInf = NInf"

fun divide_fnum :: "fnum \<Rightarrow> fnum \<Rightarrow> fnum" where
  "divide_fnum (Fin a) (Fin b) =
     (if b = 0 then (if a = 0 then NaN else if 0 < a then PInf else NInf)
      else overflow (a / b))"
| "divide_fnum NaN y = NaN"
| "divide_fnum x NaN = NaN"
| "divide_fnum (Fin a) y = Fin 0"
| "divide_fnum PInf (Fin b) = (if 0 \<le> b then PInf else NInf)"
| "divide_fnum NInf (Fin b) = (if 0 \<le> b then NInf else PInf)"
| "divide_fnum x y = NaN"

definition inverse_fnum :: "fnum \<Rightarrow> fnum" where
  "inverse_fnum x = divide (Fin 1) x"

fun less_eq_fnum :: "fnum \<Rightarrow> fnum \<Rightarrow> bool" where
  "less_eq_fnum (Fin a) (Fin b) = (a \<le> b)"
| "less_eq_fnum NaN y = False"
| "less_eq_fnum x NaN = False"
| "less_eq_fnum NInf y = True"
| "less_eq_fnum x PInf = True"
| "less_eq_fnum x y = False"

fun less_fnum :: "fnum \<Rightarrow> fnum \<Rightarrow> bool" where
  "less_fnum (Fin a) (Fin b) = (a < b)"
| "less_fnum NaN y = False"
| "less_fnum x NaN = False"
| "less_fnum PInf y = False"
| "less_fnum x NInf = False"
| "less_fnum x y = True"

instance ..

end


text \<open>
  A set of \<open>fnum\<close> values whose members are finite and whose differences do not
  overflow.
\<close>

definition in_range_spread :: "fnum set \<Rightarrow> bool" where
  "in_range_spread A = (\<forall>a\<in>A. \<forall>b\<in>A. \<exists>r s. a = Fin r \<and> b = Fin s \<and> s - r \<le> FLT_MAX)"

section \<open>Reference helpers for evaluating the methods on concrete inputs\<close>

text \<open>
  Modelled from the spec: \<^verbatim>\<open>split\<close>, whose definition is missing from the sources.
  Spec section 2: "Tokenizer: whitespace splitter producing a stream of tokens from a
  line of text"; section 3: a token is "a sequence of non-whitespace bytes".
\<close>

definition is_space :: "char \<Rightarrow> bool" where
  "is_space c = (c \<in> set [CHR '' '', CHR 0x09, CHR 0x0A, CHR 0x0B, CHR 0x0C, CHR 0x0D])"

fun split_from :: "string \<Rightarrow> string \<Rightarrow> string list" where
  "split_from cur [] = (if cur = [] then [] else [cur])"
| "split_from cur (c # cs) =
     (if is_space c then (if cur = [] then split_from [] cs else cur # split_from [] cs)
      else split_from (cur @ [c]) cs)"

definition split_ws :: "string \<Rightarrow> string list" where
  "split_ws sentence = split_from [] sentence"

text \<open>
  Modelled from the spec: \<^verbatim>\<open>wordVec\<close>, whose definition is missing from the sources.
  Spec section 4.7: policy 0 returns \<open>W_in[i]\<close>, policy 1 returns \<open>W_out_ns[i]\<close>,
  policy 2 returns \<open>(W_in[i] + W_out_ns[i]) / 2\<close>, policy 3 returns the concatenation
  of the two; "Unknown word fails with NotInVocabulary". The spec defines no other
  policy and requires every index to have its row; outside of that the reference yields
  no vector.
\<close>

definition matrix_row :: "'f mat \<Rightarrow> int \<Rightarrow> 'f vec option" where
  "matrix_row W i = (if 0 \<le> i \<and> nat i < length W then Some (W ! nat i) else None)"

definition wordVec_ref ::
  "('f::{one,plus,inverse}) MonolingualModel \<Rightarrow> string \<Rightarrow> int \<Rightarrow> 'f vec option" where
  "wordVec_ref m w policy =
     (case vocabulary m w of
        None \<Rightarrow> None
      | Some node \<Rightarrow>
          (let i = index (info node) in
           if policy = 0 then matrix_row (input_weights m) i
           else if policy = 1 then matrix_row (output_weights m) i
           else if policy = 2 then
             (case (matrix_row (input_weights m) i, matrix_row (output_weights m) i) of
                (Some a, Some b) \<Rightarrow> Some (map2 (\<lambda>x y. (x + y) / (1 + 1)) a b)
              | _ \<Rightarrow> None)
           else if policy = 3 then
             (case (matrix_row (input_weights m) i, matrix_row (output_weights m) i) of
                (Some a, Some b) \<Rightarrow> Some (a @ b)
              | _ \<Rightarrow> None)
           else None))"

text \<open>
  Modelled from the spec: \<^verbatim>\<open>dot\<close> and \<^verbatim>\<open>norm\<close> of the vector class, missing from the
  sources. Spec section 4.7 writes them \<open>v1 \<cdot> v2\<close> and \<open>\<parallel>v\<parallel>\<close>.
\<close>

definition dot_ref :: "real vec \<Rightarrow> real vec \<Rightarrow> real" where
  "dot_ref u v = sum_list (map2 (*) u v)"

definition norm_ref :: "real vec \<Rightarrow> real" where
  "norm_ref v = sqrt (sum_list (map (\<lambda>x. x * x) v))"

definition ref_prims :: "real prims" where
  "ref_prims =
     \<lparr>split = split_ws, wordVec = wordVec_ref, dot = dot_ref, norm = norm_ref,
      int_to_float = real_of_int\<rparr>"

text \<open>
  A model with the two words \<open>a\<close> and \<open>b\<close>, two dimensions, and nothing trained for
  hierarchical softmax or sentences.
\<close>

definition example_model :: "real MonolingualModel" where
  "example_model =
     \<lparr>input_weights = [[1, 0], [1, 1]],
      output_weights = [[0, 0], [0, 0]],
      output_weights_hs = [],
      sent_weights = [],
      online_sent_weights = [],
      training_words = 2, training_lines = 1, words_processed = 0,
      alpha = 5 / 100,
      config = Config_default\<lparr>dimension := 2, min_count := 1\<rparr>,
      vocabulary = [''a'' \<mapsto> HuffmanNode_leaf 0 ''a'' False,
                    ''b'' \<mapsto> HuffmanNode_leaf 1 ''b'' False],
      unigram_table = []\<rparr>"




text \<open>
  A model over \<open>fnum\<close> with the words \<open>a\<close> and \<open>b\<close> and the input weights \<open>W\<close>, trained
  with hierarchical softmax only: the output weights for negative sampling are as they
  were initialized, all zero.
\<close>

definition fnum_model :: "fnum mat \<Rightarrow> fnum MonolingualModel" where
  "fnum_model W =
     \<lparr>input_weights = W,
      output_weights = map (map (\<lambda>x. 0)) W,
      output_weights_hs = [],
      sent_weights = [],
      online_sent_weights = [],
      training_words = 2, training_lines = 1, words_processed = 0,
      alpha = Fin (5 / 100),
      config =
        \<lparr>starting_alpha = Fin (5 / 100), dimension = 2, min_count = 1, max_iterations = 5,
         window_size = 5, n_threads = 4, subsampling = Fin (1 / 1000), verbose = False,
         hierarchical_softmax = True, skip_gram = False, negative = 0,
         sent_vector = False, freeze = False\<rparr>,
      vocabulary = [''a'' \<mapsto> HuffmanNode_leaf 0 ''a'' False,
                    ''b'' \<mapsto> HuffmanNode_leaf 1 ''b'' False],
      unigram_table = []\<rparr>"

text \<open>
  A matrix with two columns that vary and one that is constant, and a one-column matrix
  of finite numbers whose greatest and least entry, \<open>2^127\<close> and \<open>-2^127\<close>, are further
  apart than \<open>FLT_MAX\<close>.
\<close>

definition example_weights :: "fnum mat" where
  "example_weights = [[Fin 1, Fin 5, Fin 2], [Fin 3, Fin 5, Fin 0], [Fin 2, Fin 5, Fin 1]]"

definition overflow_weights :: "fnum mat" where
  "overflow_weights =
     [[Fin 170141183460469231731687303715884105728],
      [Fin (- 170141183460469231731687303715884105728)],
      [Fin 0]]"

text \<open>
  A vocabulary entry whose word was seen \<open>c\<close> times (the constructor starts the count at
  1 and reading the corpus raises it), and a vocabulary of three words.
\<close>

definition counted_leaf :: "int \<Rightarrow> string \<Rightarrow> 32 word \<Rightarrow> HuffmanNode" where
  "counted_leaf idx w c = Leaf ((info (HuffmanNode_leaf idx w False))\<lparr>count := c\<rparr>)"

definition example_vocabulary :: "HuffmanNode list" where
  "example_vocabulary = [counted_leaf 0 ''a'' 3, counted_leaf 1 ''b'' 1, counted_leaf 2 ''c'' 2]"

section \<open>The methods leave the model as it was\<close>

lemma similarity_model: "snd (similarity P m word1 word2 policy) = m"
  by (simp add: similarity_def split: option.split)

lemma ngrams_loop_model: "snd (ngrams_loop P m words1 words2 policy i res n) = m"
proof (induction P m words1 words2 policy i res n rule: ngrams_loop.induct)
  case (1 P m words1 words2 policy i res n)
  obtain r m' where sim: "similarity P m (words1 ! i) (words2 ! i) policy = (r, m')"
    by (cases "similarity P m (words1 ! i) (words2 ! i) policy")
  with similarity_model [of P m "words1 ! i" "words2 ! i" policy] have m': "m' = m"
    by simp
  show ?case
  proof (cases "i < length words1 \<and> \<not> length words2 \<le> i")
    case False
    then show ?thesis
      by (auto simp: ngrams_loop.simps [of P m words1 words2 policy i res n])
  next
    case True
    then have inside: "i < length words1" "\<not> length words2 \<le> i"
      by simp_all
    show ?thesis
    proof (cases r)
      case (Inl e)
      with "1.IH"(1) [OF inside sim [symmetric] Inl] sim m' inside show ?thesis
        by (simp add: ngrams_loop.simps [of P m words1 words2 policy i res n])
    next
      case (Inr s)
      with "1.IH"(2) [OF inside sim [symmetric] Inr] sim m' inside show ?thesis
        by (simp add: ngrams_loop.simps [of P m words1 words2 policy i res n])
    qed
  qed
qed

text \<open>
  C10. \<open>similarity\<close>, \<open>distance\<close> and \<open>similarityNgrams\<close> leave the whole model as it
  was (the weight matrices, the vocabulary, the configuration and every other member),
  whether they return a value or fail.
\<close>

theorem inference_leaves_model_unchanged:
  "snd (similarity P m word1 word2 policy) = m \<and>
   snd (distance P m word1 word2 policy) = m \<and>
   snd (similarityNgrams P m seq1 seq2 policy) = m"
proof -
  have d: "snd (distance P m word1 word2 policy) = m"
    using similarity_model [of P m word1 word2 policy]
    by (auto simp: distance_def split: prod.split sum.split)
  have n: "snd (similarityNgrams P m seq1 seq2 policy) = m"
    using ngrams_loop_model [of P m "split P seq1" "split P seq2" policy 0 0 0]
    by (auto simp: similarityNgrams_def Let_def split: prod.split sum.split)
  from similarity_model d n show ?thesis
    by simp
qed

section \<open>similarity and distance\<close>

text \<open>
  C3. For every string \<open>w\<close>, in the vocabulary or not, \<open>similarity(w, w)\<close> returns
  exactly 1.0: the comparison of the two arguments comes before any lookup, so no
  error is raised whatever \<open>wordVec\<close> would do with \<open>w\<close>.
\<close>

theorem similarity_same_word: "fst (similarity P m w w policy) = Inr 1"
  by (simp add: similarity_def)

text \<open>
  C6. \<open>distance(w1, w2)\<close> is \<open>1 - similarity(w1, w2)\<close> wherever \<open>similarity\<close> returns a
  value, and \<open>distance\<close> fails, with the same error, exactly when \<open>similarity\<close> fails.
\<close>

theorem distance_is_one_minus_similarity:
  "fst (distance P m word1 word2 policy) =
     (case fst (similarity P m word1 word2 policy) of
        Inl e \<Rightarrow> Inl e
      | Inr s \<Rightarrow> Inr (1 - s))"
  by (simp add: distance_def split: prod.split sum.split)

section \<open>The loop of similarityNgrams\<close>

lemma similarity_fails_iff:
  "(\<exists>e. fst (similarity P m a b policy) = Inl e) \<longleftrightarrow>
     a \<noteq> b \<and> (wordVec P m a policy = None \<or> wordVec P m b policy = None)"
  by (auto simp: similarity_def split: option.splits)

lemma ngrams_loop_step:
  assumes "i < length words1" "i < length words2"
  shows "ngrams_loop P m words1 words2 policy i res n =
           (case pair_similarity P m policy (words1 ! i, words2 ! i) of
              Some s \<Rightarrow> ngrams_loop P m words1 words2 policy (Suc i) (res + s) (n + 1)
            | None \<Rightarrow> ngrams_loop P m words1 words2 policy (Suc i) res n)"
proof -
  obtain r m' where sim: "similarity P m (words1 ! i) (words2 ! i) policy = (r, m')"
    by (cases "similarity P m (words1 ! i) (words2 ! i) policy")
  with similarity_model [of P m "words1 ! i" "words2 ! i" policy] have "m' = m"
    by simp
  with sim assms show ?thesis
    by (subst ngrams_loop.simps) (simp add: pair_similarity_def split: sum.split)
qed

lemma ngrams_loop_done:
  "length words1 \<le> i \<Longrightarrow> ngrams_loop P m words1 words2 policy i res n = (Inr (res, n), m)"
  by (subst ngrams_loop.simps) simp

lemma ngrams_loop_past_end:
  "i < length words1 \<Longrightarrow> length words2 \<le> i \<Longrightarrow>
     ngrams_loop P m words1 words2 policy i res n = (Inl OutOfBounds, m)"
  by (subst ngrams_loop.simps) simp

lemma ngrams_loop_OutOfBounds:
  assumes "length words2 < length words1" "i \<le> length words2"
  shows "fst (ngrams_loop P m words1 words2 policy i res n) = Inl OutOfBounds"
  using assms
proof (induction "length words2 - i" arbitrary: i res n)
  case 0
  then have "i < length words1" "length words2 \<le> i"
    by simp_all
  then show ?case
    by (simp add: ngrams_loop_past_end)
next
  case (Suc k)
  then have inside: "i < length words1" "i < length words2"
    by simp_all
  from Suc have "k = length words2 - Suc i" "Suc i \<le> length words2"
    by simp_all
  with Suc.hyps(1) Suc.prems(1) have
    "fst (ngrams_loop P m words1 words2 policy (Suc i) r c) = Inl OutOfBounds" for r c
    by blast
  then show ?case
    by (simp add: ngrams_loop_step [OF inside] split: option.split)
qed

lemma ngrams_loop_tally:
  assumes "length words1 \<le> length words2" "i \<le> length words1"
  shows "fst (ngrams_loop P m words1 words2 policy i res n) =
           Inr (foldl tally (res, n) (map (pair_similarity P m policy) (drop i (zip words1 words2))))"
  using assms
proof (induction "length words1 - i" arbitrary: i res n)
  case 0
  then show ?case
    by (simp add: ngrams_loop_done)
next
  case (Suc k)
  then have inside: "i < length words1" "i < length words2"
    by simp_all
  then have d: "drop i (zip words1 words2) = (words1 ! i, words2 ! i) # drop (Suc i) (zip words1 words2)"
    by (simp add: Cons_nth_drop_Suc [symmetric])
  from Suc have "k = length words1 - Suc i" "Suc i \<le> length words1"
    by simp_all
  with Suc.hyps(1) Suc.prems(1) have
    "fst (ngrams_loop P m words1 words2 policy (Suc i) r c) =
       Inr (foldl tally (r, c) (map (pair_similarity P m policy) (drop (Suc i) (zip words1 words2))))" for r c
    by blast
  then show ?case
    by (simp add: ngrams_loop_step [OF inside] d tally_def split: option.split)
qed

lemma foldl_tally:
  "foldl tally (res, n) rs =
     (foldl (+) res (List.map_filter id rs), n + int (length (List.map_filter id rs)))"
  by (induction rs arbitrary: res n) (auto simp: tally_def List.map_filter_simps split: option.split)

lemma map_filter_id_map: "List.map_filter id (map f xs) = List.map_filter f xs"
  by (induction xs) (simp_all split: option.split)

lemmas ref_defs = ref_prims_def split_ws_def is_space_def wordVec_ref_def example_model_def
  HuffmanNode_leaf_def matrix_row_def dot_ref_def norm_ref_def

lemma similarityNgrams_never_LengthMismatch_aux:
  "fst (similarityNgrams P m seq1 seq2 policy) \<noteq> Inl LengthMismatch"
proof (cases "length (split P seq2) < length (split P seq1)")
  case True
  then have "fst (ngrams_loop P m (split P seq1) (split P seq2) policy 0 0 0) = Inl OutOfBounds"
    by (simp add: ngrams_loop_OutOfBounds)
  then show ?thesis
    by (auto simp: similarityNgrams_def Let_def split: prod.split sum.split)
next
  case False
  then have "\<exists>r. fst (ngrams_loop P m (split P seq1) (split P seq2) policy 0 0 0) = Inr r"
    by (simp add: ngrams_loop_tally)
  then show ?thesis
    by (auto simp: similarityNgrams_def Let_def split: prod.split sum.split)
qed

text \<open>
  C9. In \<open>similarityNgrams\<close> as written the guard compares the size of the second
  token sequence with itself, so it never fires: no input makes the function fail with
  \<open>LengthMismatch\<close>. The read \<^verbatim>\<open>words2[i]\<close> is therefore unguarded: whenever the first
  sequence has more tokens than the second, the loop reads the second sequence past its
  end.
\<close>

theorem length_guard_unreachable:
  "fst (similarityNgrams P m seq1 seq2 policy) \<noteq> Inl LengthMismatch \<and>
   (length (split P seq2) < length (split P seq1) \<longrightarrow>
      fst (similarityNgrams P m seq1 seq2 policy) = Inl OutOfBounds)"
proof -
  have "fst (similarityNgrams P m seq1 seq2 policy) = Inl OutOfBounds"
    if "length (split P seq2) < length (split P seq1)"
  proof -
    from that have "fst (ngrams_loop P m (split P seq1) (split P seq2) policy 0 0 0) = Inl OutOfBounds"
      by (simp add: ngrams_loop_OutOfBounds)
    then show ?thesis
      by (auto simp: similarityNgrams_def Let_def split: prod.split sum.split)
  qed
  with similarityNgrams_never_LengthMismatch_aux [of P m seq1 seq2 policy] show ?thesis
    by blast
qed

theorem length_guard_unreachable_witness:
  "length (split ref_prims ''foo'') < length (split ref_prims ''foo bar'') \<and>
   fst (similarityNgrams ref_prims example_model ''foo bar'' ''foo'' 0) \<noteq> Inl LengthMismatch \<and>
   fst (similarityNgrams ref_prims example_model ''foo bar'' ''foo'' 0) = Inl OutOfBounds"
proof -
  have h: "length (split ref_prims ''foo'') < length (split ref_prims ''foo bar'')"
    by (simp add: ref_defs)
  with length_guard_unreachable [of ref_prims example_model "''foo bar''" "''foo''" 0]
  show ?thesis
    by blast
qed

text \<open>
  C1. The claim is that token sequences of different lengths make \<open>similarityNgrams\<close>
  fail with \<open>LengthMismatch\<close>. The code does not: on "foo" against "foo bar" it returns
  1.0, the similarity of the one pair it looks at, and on "foo bar" against "foo" (the
  spec's third scenario) it reads \<^verbatim>\<open>words2[1]\<close> past the end.
\<close>

theorem similarityNgrams_no_length_check:
  "length (split ref_prims ''foo'') \<noteq> length (split ref_prims ''foo bar'') \<and>
   fst (similarityNgrams ref_prims example_model ''foo'' ''foo bar'' 0) = Inr 1 \<and>
   fst (similarityNgrams ref_prims example_model ''foo bar'' ''foo'' 0) = Inl OutOfBounds"
  by (simp add: similarityNgrams_def ngrams_loop.simps similarity_def ref_defs)

text \<open>
  C2. (as amended) For token sequences of equal length, \<open>similarityNgrams\<close> returns
  the arithmetic mean (the sum in loop order, starting from 0, divided by the count) of
  the similarities at the positions that are not skipped, and fails with \<open>AllOOV\<close>
  exactly when every position is skipped. A position is skipped exactly when its two
  words differ and \<open>wordVec\<close> fails on at least one of them; a position whose two
  words are equal counts with similarity 1, also when the word is out of vocabulary.
\<close>

theorem similarityNgrams_mean:
  assumes "length (split P seq1) = length (split P seq2)"
  shows "fst (similarityNgrams P m seq1 seq2 policy) =
           (let sims = List.map_filter (pair_similarity P m policy)
                         (zip (split P seq1) (split P seq2))
            in if sims = [] then Inl AllOOV
               else Inr (foldl (+) 0 sims / int_to_float P (int (length sims)))) \<and>
         (\<forall>a b. pair_similarity P m policy (a, b) = None \<longleftrightarrow>
                  a \<noteq> b \<and> (wordVec P m a policy = None \<or> wordVec P m b policy = None)) \<and>
         (\<forall>a. pair_similarity P m policy (a, a) = Some 1)"
proof -
  let ?sims = "List.map_filter (pair_similarity P m policy) (zip (split P seq1) (split P seq2))"
  from assms have
    "fst (ngrams_loop P m (split P seq1) (split P seq2) policy 0 0 0) =
       Inr (foldl (+) 0 ?sims, int (length ?sims))"
    by (simp add: ngrams_loop_tally foldl_tally map_filter_id_map)
  then have mean: "fst (similarityNgrams P m seq1 seq2 policy) =
      (if ?sims = [] then Inl AllOOV
       else Inr (foldl (+) 0 ?sims / int_to_float P (int (length ?sims))))"
    by (auto simp: similarityNgrams_def Let_def split: prod.split sum.split)
  have skip: "pair_similarity P m policy (a, b) = None \<longleftrightarrow>
      a \<noteq> b \<and> (wordVec P m a policy = None \<or> wordVec P m b policy = None)" for a b
    by (auto simp: pair_similarity_def similarity_def split: option.splits)
  have same: "pair_similarity P m policy (a, a) = Some 1" for a
    by (simp add: pair_similarity_def similarity_def)
  from mean skip same show ?thesis
    by (simp add: Let_def)
qed

theorem similarityNgrams_mean_witness:
  "length (split ref_prims ''a foo b'') = length (split ref_prims ''b bar b'') \<and>
   fst (similarityNgrams ref_prims example_model ''a foo b'' ''b bar b'' 0) =
     Inr ((0 + 1 / sqrt 2 + 1) / 2)"
proof -
  have h: "length (split ref_prims ''a foo b'') = length (split ref_prims ''b bar b'')"
    by (simp add: ref_defs)
  have sims: "List.map_filter (pair_similarity ref_prims example_model 0)
      (zip (split ref_prims ''a foo b'') (split ref_prims ''b bar b'')) = [1 / sqrt 2, 1]"
    by (simp add: List.map_filter_simps pair_similarity_def similarity_def ref_defs)
  have "fst (similarityNgrams ref_prims example_model ''a foo b'' ''b bar b'' 0) =
      Inr (foldl (+) 0 [1 / sqrt 2, 1] / int_to_float ref_prims (int (length [1 / sqrt 2, 1 :: real])))"
    using similarityNgrams_mean [OF h, of example_model 0] unfolding sims
    by simp
  with h show ?thesis
    by (simp add: ref_prims_def)
qed

text \<open>
  C2 as first stated says that every position with an out-of-vocabulary word is skipped.
  With "foo" unknown, "foo" against "foo" has one position, it holds an unknown word, and
  the result is 1.0 and not \<open>AllOOV\<close>.
\<close>

theorem similarityNgrams_equal_oov_words_counted:
  "wordVec ref_prims example_model ''foo'' 0 = None \<and>
   length (split ref_prims ''foo'') = length (split ref_prims ''foo'') \<and>
   split ref_prims ''foo'' = [''foo''] \<and>
   fst (similarityNgrams ref_prims example_model ''foo'' ''foo'' 0) = Inr 1"
  by (simp add: similarityNgrams_def ngrams_loop.simps similarity_def ref_defs)

section \<open>Symmetry of similarity\<close>

lemma dot_ref_commute: "dot_ref u v = dot_ref v u"
proof -
  have "map2 (*) u v = map2 (*) v u"
  proof (induction u arbitrary: v)
    case Nil
    then show ?case by simp
  next
    case (Cons x xs)
    then show ?case by (cases v) (simp_all add: mult.commute)
  qed
  then show ?thesis
    by (simp add: dot_ref_def)
qed

text \<open>
  C7. \<open>similarity\<close> is symmetric. Provided \<open>dot\<close> and the multiplication of the
  number type commute (both do for IEEE floats and a dot product that sums the
  products of the components), \<open>similarity(a, b)\<close> returns \<open>x\<close> exactly when
  \<open>similarity(b, a)\<close> returns \<open>x\<close>, and one call fails exactly when the other does.
\<close>

theorem similarity_symmetric:
  fixes P :: "('f::{one,times,inverse}) prims"
  assumes "\<forall>u v. dot P u v = dot P v u" and "\<forall>x y :: 'f. x * y = y * x"
  shows "(fst (similarity P m a b policy) = Inr x \<longleftrightarrow> fst (similarity P m b a policy) = Inr x) \<and>
         ((\<exists>e. fst (similarity P m a b policy) = Inl e) \<longleftrightarrow>
          (\<exists>e. fst (similarity P m b a policy) = Inl e))"
proof -
  have "dot P u v / (norm P u * norm P v) = dot P v u / (norm P v * norm P u)" for u v
  proof -
    from assms(2) have "norm P u * norm P v = norm P v * norm P u"
      by blast
    with assms(1) show ?thesis
      by simp
  qed
  then show ?thesis
    by (auto simp: similarity_def split: option.splits)
qed

theorem similarity_symmetric_witness:
  "(\<forall>u v. dot ref_prims u v = dot ref_prims v u) \<and>
   (\<forall>x y :: real. x * y = y * x) \<and>
   fst (similarity ref_prims example_model ''a'' ''b'' 0) = Inr (1 / sqrt 2) \<and>
   fst (similarity ref_prims example_model ''b'' ''a'' 0) = Inr (1 / sqrt 2) \<and>
   (\<exists>e. fst (similarity ref_prims example_model ''a'' ''foo'' 0) = Inl e) \<and>
   (\<exists>e. fst (similarity ref_prims example_model ''foo'' ''a'' 0) = Inl e)"
proof -
  have d: "\<forall>u v. dot ref_prims u v = dot ref_prims v u"
    by (simp add: ref_prims_def dot_ref_commute)
  have t: "\<forall>x y :: real. x * y = y * x"
    by (simp add: mult.commute)
  have ab: "fst (similarity ref_prims example_model ''a'' ''b'' 0) = Inr (1 / sqrt 2)"
    by (simp add: similarity_def ref_defs)
  have af: "\<exists>e. fst (similarity ref_prims example_model ''a'' ''foo'' 0) = Inl e"
    by (simp add: similarity_def ref_defs)
  from similarity_symmetric [OF d t, of example_model "''a''" "''b''" 0 "1 / sqrt 2"]
       similarity_symmetric [OF d t, of example_model "''a''" "''foo''" 0]
       d t ab af
  show ?thesis
    by blast
qed

section \<open>normalizeWeights\<close>

subsection \<open>The two passes\<close>

lemma fold_update_upt:
  "k \<le> length xs \<Longrightarrow>
     fold (\<lambda>j r. r[j := g j (r ! j)]) [0..<k] xs =
       map (\<lambda>j. if j < k then g j (xs ! j) else xs ! j) [0..<length xs]"
proof (induction k)
  case 0
  then show ?case by (simp add: map_nth)
next
  case (Suc k)
  then have k: "k < length xs" by simp
  let ?ys = "map (\<lambda>j. if j < k then g j (xs ! j) else xs ! j) [0..<length xs]"
  from Suc have "fold (\<lambda>j r. r[j := g j (r ! j)]) [0..<Suc k] xs = ?ys[k := g k (?ys ! k)]"
    by simp
  also from k have "\<dots> = map (\<lambda>j. if j < Suc k then g j (xs ! j) else xs ! j) [0..<length xs]"
    by (intro nth_equalityI) (auto simp: nth_list_update less_Suc_eq)
  finally show ?case .
qed

lemma scan_row_split:
  "scan_row dims row (mn, mx) =
     (fold (\<lambda>j r. r[j := std_min (r ! j) (row ! j)]) [0..<dims] mn,
      fold (\<lambda>j r. r[j := std_max (r ! j) (row ! j)]) [0..<dims] mx)"
  unfolding scan_row_def
  by (induction dims) simp_all

lemma scan_row_eq:
  assumes "length mn = dims" "length mx = dims"
  shows "scan_row dims row (mn, mx) =
           (map (\<lambda>j. std_min (mn ! j) (row ! j)) [0..<dims],
            map (\<lambda>j. std_max (mx ! j) (row ! j)) [0..<dims])"
  using assms
  by (simp add: scan_row_split fold_update_upt [where g = "\<lambda>j x. std_min x (row ! j)"]
      fold_update_upt [where g = "\<lambda>j x. std_max x (row ! j)"])

lemma fold_scan_row:
  assumes "length mn = dims" "length mx = dims"
  shows "fold (scan_row dims) rows (mn, mx) =
           (map (\<lambda>j. fold (\<lambda>x acc. std_min acc x) (map (\<lambda>row. row ! j) rows) (mn ! j)) [0..<dims],
            map (\<lambda>j. fold (\<lambda>x acc. std_max acc x) (map (\<lambda>row. row ! j) rows) (mx ! j)) [0..<dims])"
  using assms
proof (induction rows arbitrary: mn mx)
  case Nil
  with map_nth [of mn] map_nth [of mx] show ?case by simp
next
  case (Cons row rows)
  let ?mn = "map (\<lambda>j. std_min (mn ! j) (row ! j)) [0..<dims]"
  let ?mx = "map (\<lambda>j. std_max (mx ! j) (row ! j)) [0..<dims]"
  have "fold (scan_row dims) (row # rows) (mn, mx) = fold (scan_row dims) rows (?mn, ?mx)"
    using Cons.prems by (simp add: scan_row_eq)
  also have "\<dots> =
      (map (\<lambda>j. fold (\<lambda>x acc. std_min acc x) (map (\<lambda>row. row ! j) rows) (?mn ! j)) [0..<dims],
       map (\<lambda>j. fold (\<lambda>x acc. std_max acc x) (map (\<lambda>row. row ! j) rows) (?mx ! j)) [0..<dims])"
    by (rule Cons.IH) simp_all
  also have "\<dots> =
      (map (\<lambda>j. fold (\<lambda>x acc. std_min acc x) (map (\<lambda>row. row ! j) (row # rows)) (mn ! j)) [0..<dims],
       map (\<lambda>j. fold (\<lambda>x acc. std_max acc x) (map (\<lambda>row. row ! j) (row # rows)) (mx ! j)) [0..<dims])"
    by simp
  finally show ?case .
qed

lemma scale_row_eq:
  assumes "dims \<le> length row"
  shows "scale_row dims mn mx row =
           map (\<lambda>j. if j < dims \<and> float_ne (mx ! j) (mn ! j)
                     then (row ! j - mn ! j) / (mx ! j - mn ! j) else row ! j)
               [0..<length row]"
proof -
  have "scale_row dims mn mx row =
      fold (\<lambda>j r. r[j := (if float_ne (mx ! j) (mn ! j)
                           then (r ! j - mn ! j) / (mx ! j - mn ! j) else r ! j)])
        [0..<dims] row"
    unfolding scale_row_def
    by (rule arg_cong [where f = "\<lambda>f. fold f [0..<dims] row"]) (auto simp: fun_eq_iff)
  also from assms have "\<dots> =
      map (\<lambda>j. if j < dims
                then (if float_ne (mx ! j) (mn ! j) then (row ! j - mn ! j) / (mx ! j - mn ! j)
                      else row ! j)
                else row ! j) [0..<length row]"
    by (rule fold_update_upt [where g = "\<lambda>j x. if float_ne (mx ! j) (mn ! j)
                                              then (x - mn ! j) / (mx ! j - mn ! j) else x"])
  finally show ?thesis
    by (simp cong: if_cong)
qed

lemma normalizeWeights_rectangular:
  fixes weights :: "('f::{ord,minus,inverse}) mat"
  assumes w: "weights = r0 # rest" and rect: "rectangular weights"
  defines "d \<equiv> length r0"
  defines "lo \<equiv> \<lambda>j. fold (\<lambda>x acc. std_min acc x) (map (\<lambda>row. row ! j) rest) (r0 ! j)"
  defines "hi \<equiv> \<lambda>j. fold (\<lambda>x acc. std_max acc x) (map (\<lambda>row. row ! j) rest) (r0 ! j)"
  shows "normalizeWeights weights =
           Inr (map (\<lambda>row. map (\<lambda>j. if float_ne (hi j) (lo j)
                                      then (row ! j - lo j) / (hi j - lo j) else row ! j)
                            [0..<d]) weights)"
proof -
  from rect w have len: "length row = d" if "row \<in> set weights" for row
    using that by (auto simp: rectangular_def d_def list_all_iff)
  from w have r0: "weights ! 0 = r0" and rest: "drop 1 weights = rest" and ne: "weights \<noteq> []"
    by simp_all
  from len w have no_short: "\<not> list_ex (\<lambda>row. length row < d) (drop 1 weights)"
    by (auto simp: list_ex_iff)
  define mn where "mn = map lo [0..<d]"
  define mx where "mx = map hi [0..<d]"
  have scan: "fold (scan_row d) (drop 1 weights) (weights ! 0, weights ! 0) = (mn, mx)"
    unfolding r0 rest mn_def mx_def lo_def hi_def by (rule fold_scan_row) (simp_all add: d_def)
  have row: "scale_row d mn mx row =
      map (\<lambda>j. if float_ne (hi j) (lo j) then (row ! j - lo j) / (hi j - lo j) else row ! j) [0..<d]"
    if "row \<in> set weights" for row
  proof -
    from len [OF that] have "scale_row d mn mx row =
        map (\<lambda>j. if j < d \<and> float_ne (mx ! j) (mn ! j)
                  then (row ! j - mn ! j) / (mx ! j - mn ! j) else row ! j) [0..<d]"
      using scale_row_eq [of d row mn mx] by simp
    also have "\<dots> =
        map (\<lambda>j. if float_ne (hi j) (lo j) then (row ! j - lo j) / (hi j - lo j) else row ! j) [0..<d]"
      by (rule map_cong) (simp_all add: mn_def mx_def)
    finally show ?thesis .
  qed
  from ne no_short scan show ?thesis
    by (simp add: normalizeWeights_def Let_def r0 d_def [symmetric] row cong: map_cong)
qed

subsection \<open>Least and greatest entry of an ordered column\<close>

lemma totally_ordered_total:
  assumes "totally_ordered A" "a \<in> A" "b \<in> A"
  shows "a \<le> b \<or> b \<le> a"
proof -
  from assms(1)
  have "\<forall>a\<in>A. \<forall>b\<in>A. (a \<le> b \<or> b \<le> a) \<and> (a < b \<longleftrightarrow> a \<le> b \<and> \<not> b \<le> a)"
    unfolding totally_ordered_def by (rule conjunct1)
  from bspec [OF bspec [OF this assms(2)] assms(3)] show ?thesis
    by (rule conjunct1)
qed

lemma totally_ordered_less:
  assumes "totally_ordered A" "a \<in> A" "b \<in> A"
  shows "a < b \<longleftrightarrow> a \<le> b \<and> \<not> b \<le> a"
proof -
  from assms(1)
  have "\<forall>a\<in>A. \<forall>b\<in>A. (a \<le> b \<or> b \<le> a) \<and> (a < b \<longleftrightarrow> a \<le> b \<and> \<not> b \<le> a)"
    unfolding totally_ordered_def by (rule conjunct1)
  from bspec [OF bspec [OF this assms(2)] assms(3)] show ?thesis
    by (rule conjunct2)
qed

lemma totally_ordered_trans:
  assumes "totally_ordered A" "a \<in> A" "b \<in> A" "c \<in> A" "a \<le> b" "b \<le> c"
  shows "a \<le> c"
proof -
  from assms(1) have "\<forall>a\<in>A. \<forall>b\<in>A. \<forall>c\<in>A. a \<le> b \<and> b \<le> c \<longrightarrow> a \<le> c"
    unfolding totally_ordered_def by (rule conjunct2)
  from bspec [OF bspec [OF bspec [OF this assms(2)] assms(3)] assms(4)]
  have "a \<le> b \<and> b \<le> c \<longrightarrow> a \<le> c" .
  then show ?thesis
    using conjI [OF assms(5,6)] by (rule mp)
qed

lemma totally_ordered_refl: "totally_ordered A \<Longrightarrow> a \<in> A \<Longrightarrow> a \<le> a"
  using totally_ordered_total [of A a a] by simp

lemma std_min_step:
  assumes "totally_ordered A" "a \<in> A" "y \<in> A"
  shows "std_min a y \<in> {a, y}" "std_min a y \<le> a" "std_min a y \<le> y"
proof -
  show "std_min a y \<in> {a, y}"
    by (simp add: std_min_def)
  show "std_min a y \<le> a"
    using totally_ordered_less [OF assms(1,3,2)] totally_ordered_refl [OF assms(1,2)]
    by (simp add: std_min_def)
  show "std_min a y \<le> y"
    using totally_ordered_less [OF assms(1,3,2)] totally_ordered_refl [OF assms(1,3)]
      totally_ordered_total [OF assms]
    by (auto simp: std_min_def)
qed

lemma std_max_step:
  assumes "totally_ordered A" "a \<in> A" "y \<in> A"
  shows "std_max a y \<in> {a, y}" "a \<le> std_max a y" "y \<le> std_max a y"
proof -
  show "std_max a y \<in> {a, y}"
    by (simp add: std_max_def)
  show "a \<le> std_max a y"
    using totally_ordered_less [OF assms] totally_ordered_refl [OF assms(1,2)]
    by (simp add: std_max_def)
  show "y \<le> std_max a y"
    using totally_ordered_less [OF assms] totally_ordered_refl [OF assms(1,3)]
      totally_ordered_total [OF assms]
    by (auto simp: std_max_def)
qed

lemma running_min_least:
  assumes "totally_ordered A" "a \<in> A" "set xs \<subseteq> A"
  shows "fold (\<lambda>x acc. std_min acc x) xs a \<in> set (a # xs) \<and>
         (\<forall>x\<in>set (a # xs). fold (\<lambda>x acc. std_min acc x) xs a \<le> x)"
  using assms(2,3)
proof (induction xs arbitrary: a)
  case Nil
  with assms(1) show ?case by (simp add: totally_ordered_refl)
next
  case (Cons y ys)
  let ?a = "std_min a y"
  let ?r = "fold (\<lambda>x acc. std_min acc x) ys ?a"
  from Cons.prems have y: "y \<in> A" and ys: "set ys \<subseteq> A" by simp_all
  from std_min_step [OF assms(1) Cons.prems(1) y]
  have a': "?a \<in> {a, y}" "?a \<le> a" "?a \<le> y" .
  with Cons.prems(1) y have a'A: "?a \<in> A" by auto
  from Cons.IH [OF a'A ys] have r: "?r \<in> set (?a # ys)" "\<forall>x\<in>set (?a # ys). ?r \<le> x"
    by simp_all
  from r(1) a'A ys have rA: "?r \<in> A" by auto
  from r(2) have "?r \<le> ?a" by simp
  then have "?r \<le> a" "?r \<le> y"
    using totally_ordered_trans [OF assms(1) rA a'A Cons.prems(1) _ a'(2)]
      totally_ordered_trans [OF assms(1) rA a'A y _ a'(3)] by simp_all
  with r a'(1) show ?case by auto
qed

lemma running_max_greatest:
  assumes "totally_ordered A" "a \<in> A" "set xs \<subseteq> A"
  shows "fold (\<lambda>x acc. std_max acc x) xs a \<in> set (a # xs) \<and>
         (\<forall>x\<in>set (a # xs). x \<le> fold (\<lambda>x acc. std_max acc x) xs a)"
  using assms(2,3)
proof (induction xs arbitrary: a)
  case Nil
  with assms(1) show ?case by (simp add: totally_ordered_refl)
next
  case (Cons y ys)
  let ?a = "std_max a y"
  let ?r = "fold (\<lambda>x acc. std_max acc x) ys ?a"
  from Cons.prems have y: "y \<in> A" and ys: "set ys \<subseteq> A" by simp_all
  from std_max_step [OF assms(1) Cons.prems(1) y]
  have a': "?a \<in> {a, y}" "a \<le> ?a" "y \<le> ?a" .
  with Cons.prems(1) y have a'A: "?a \<in> A" by auto
  from Cons.IH [OF a'A ys] have r: "?r \<in> set (?a # ys)" "\<forall>x\<in>set (?a # ys). x \<le> ?r"
    by simp_all
  from r(1) a'A ys have rA: "?r \<in> A" by auto
  from r(2) have "?a \<le> ?r" by simp
  then have "a \<le> ?r" "y \<le> ?r"
    using totally_ordered_trans [OF assms(1) Cons.prems(1) a'A rA a'(2)]
      totally_ordered_trans [OF assms(1) y a'A rA a'(3)] by simp_all
  with r a'(1) show ?case by auto
qed

subsection \<open>A scaled column\<close>

lemma regular_scalingD:
  assumes "regular_scaling A" "a \<in> A" "b \<in> A" "a < b"
  shows "(b - a) / (b - a) = 1" "(a - a) / (b - a) = 0"
    "\<forall>x\<in>A. \<forall>y\<in>A. x \<le> y \<longrightarrow> (x - a) / (b - a) \<le> (y - a) / (b - a)"
proof -
  from assms(1) have "\<forall>a\<in>A. \<forall>b\<in>A. a < b \<longrightarrow>
        (b - a) / (b - a) = 1 \<and> (a - a) / (b - a) = 0 \<and>
        (\<forall>x\<in>A. \<forall>y\<in>A. x \<le> y \<longrightarrow> (x - a) / (b - a) \<le> (y - a) / (b - a))"
    unfolding regular_scaling_def .
  from bspec [OF bspec [OF this assms(2)] assms(3)] assms(4)
  have all: "(b - a) / (b - a) = 1 \<and> (a - a) / (b - a) = 0 \<and>
        (\<forall>x\<in>A. \<forall>y\<in>A. x \<le> y \<longrightarrow> (x - a) / (b - a) \<le> (y - a) / (b - a))"
    by (rule mp)
  from all show "(b - a) / (b - a) = 1"
    by (rule conjunct1)
  from all show "(a - a) / (b - a) = 0"
    by (elim conjE)
  from all show "\<forall>x\<in>A. \<forall>y\<in>A. x \<le> y \<longrightarrow> (x - a) / (b - a) \<le> (y - a) / (b - a)"
    by (elim conjE)
qed

lemma column_ends:
  fixes x0 :: "'f::ord" and xs :: "'f list"
  defines "lo \<equiv> fold (\<lambda>x acc. std_min acc x) xs x0"
  defines "hi \<equiv> fold (\<lambda>x acc. std_max acc x) xs x0"
  assumes ord: "totally_ordered (set (x0 # xs))"
  shows "lo \<in> set (x0 # xs)" "hi \<in> set (x0 # xs)"
    "x \<in> set (x0 # xs) \<Longrightarrow> lo \<le> x" "x \<in> set (x0 # xs) \<Longrightarrow> x \<le> hi"
proof -
  have x0: "x0 \<in> set (x0 # xs)" and xs: "set xs \<subseteq> set (x0 # xs)"
    by auto
  from running_min_least [OF ord x0 xs]
  have lo: "lo \<in> set (x0 # xs)" "\<forall>x\<in>set (x0 # xs). lo \<le> x"
    unfolding lo_def by (rule conjunct1, rule conjunct2)
  from running_max_greatest [OF ord x0 xs]
  have hi: "hi \<in> set (x0 # xs)" "\<forall>x\<in>set (x0 # xs). x \<le> hi"
    unfolding hi_def by (rule conjunct1, rule conjunct2)
  from lo(1) show "lo \<in> set (x0 # xs)" .
  from hi(1) show "hi \<in> set (x0 # xs)" .
  show "lo \<le> x" if "x \<in> set (x0 # xs)"
    using lo(2) that by (rule bspec)
  show "x \<le> hi" if "x \<in> set (x0 # xs)"
    using hi(2) that by (rule bspec)
qed

lemma column_range:
  fixes x0 :: "'f::{zero,one,ord,minus,inverse}" and xs :: "'f list"
  defines "lo \<equiv> fold (\<lambda>x acc. std_min acc x) xs x0"
  defines "hi \<equiv> fold (\<lambda>x acc. std_max acc x) xs x0"
  assumes ord: "totally_ordered (set (x0 # xs))" and reg: "regular_scaling (set (x0 # xs))"
    and ne: "float_ne hi lo"
  shows "0 \<in> set (map (\<lambda>x. (x - lo) / (hi - lo)) (x0 # xs))"
    "1 \<in> set (map (\<lambda>x. (x - lo) / (hi - lo)) (x0 # xs))"
    "\<forall>y\<in>set (map (\<lambda>x. (x - lo) / (hi - lo)) (x0 # xs)). 0 \<le> y \<and> y \<le> 1"
proof -
  let ?c = "x0 # xs"
  let ?f = "\<lambda>x. (x - lo) / (hi - lo)"
  note e = column_ends [OF ord, folded lo_def hi_def]
  from e(3) [OF e(2)] have "lo \<le> hi" .
  with ne have "\<not> hi \<le> lo"
    unfolding float_ne_def by simp
  with \<open>lo \<le> hi\<close> have less: "lo < hi"
    unfolding totally_ordered_less [OF ord e(1) e(2)] by (rule conjI)
  from regular_scalingD [OF reg e(1) e(2) less]
  have one: "?f hi = 1" and zero: "?f lo = 0"
    and mono: "\<forall>x\<in>set ?c. \<forall>y\<in>set ?c. x \<le> y \<longrightarrow> ?f x \<le> ?f y"
    by this+
  have "?f lo \<in> ?f ` set ?c"
    using e(1) by (rule imageI)
  with zero show "0 \<in> set (map ?f ?c)"
    by (simp only: set_map)
  have "?f hi \<in> ?f ` set ?c"
    using e(2) by (rule imageI)
  with one show "1 \<in> set (map ?f ?c)"
    by (simp only: set_map)
  have between: "0 \<le> ?f x \<and> ?f x \<le> 1" if x: "x \<in> set ?c" for x
  proof -
    from bspec [OF bspec [OF mono e(1)] x] e(3) [OF x] have "?f lo \<le> ?f x"
      by (rule mp)
    moreover from bspec [OF bspec [OF mono x] e(2)] e(4) [OF x] have "?f x \<le> ?f hi"
      by (rule mp)
    ultimately show ?thesis
      unfolding zero one by (rule conjI)
  qed
  show "\<forall>y\<in>set (map ?f ?c). 0 \<le> y \<and> y \<le> 1"
  proof
    fix y assume "y \<in> set (map ?f ?c)"
    then have "y \<in> ?f ` set ?c"
      by (simp only: set_map)
    then obtain x where "x \<in> set ?c" "y = ?f x"
      by (rule imageE)
    with between [of x] show "0 \<le> y \<and> y \<le> 1"
      by (simp only:)
  qed
qed

lemma scaled_column:
  fixes x0 :: "'f::{zero,one,ord,minus,inverse}" and xs :: "'f list"
  defines "lo \<equiv> fold (\<lambda>x acc. std_min acc x) xs x0"
  defines "hi \<equiv> fold (\<lambda>x acc. std_max acc x) xs x0"
  shows "column_scaled (x0 # xs)
           (if float_ne hi lo then map (\<lambda>x. (x - lo) / (hi - lo)) (x0 # xs) else x0 # xs)"
proof -
  let ?c = "x0 # xs"
  let ?c' = "if float_ne hi lo then map (\<lambda>x. (x - lo) / (hi - lo)) ?c else ?c"
  have 1: "if float_ne hi lo then ?c' = map (\<lambda>x. (x - lo) / (hi - lo)) ?c else ?c' = ?c"
    by (cases "float_ne hi lo") simp_all
  have 2: "totally_ordered (set ?c) \<longrightarrow>
      lo \<in> set ?c \<and> hi \<in> set ?c \<and> (\<forall>x\<in>set ?c. lo \<le> x \<and> x \<le> hi)"
  proof
    assume ord: "totally_ordered (set ?c)"
    note e = column_ends [OF ord, folded lo_def hi_def]
    have "\<forall>x\<in>set ?c. lo \<le> x \<and> x \<le> hi"
    proof
      fix x assume "x \<in> set ?c"
      from e(3) [OF this] e(4) [OF this] show "lo \<le> x \<and> x \<le> hi"
        by (rule conjI)
    qed
    with e(1,2) show "lo \<in> set ?c \<and> hi \<in> set ?c \<and> (\<forall>x\<in>set ?c. lo \<le> x \<and> x \<le> hi)"
      by (intro conjI)
  qed
  have 3: "totally_ordered (set ?c) \<and> regular_scaling (set ?c) \<and> float_ne hi lo \<longrightarrow>
      0 \<in> set ?c' \<and> 1 \<in> set ?c' \<and> (\<forall>y\<in>set ?c'. 0 \<le> y \<and> y \<le> 1)"
  proof
    assume h: "totally_ordered (set ?c) \<and> regular_scaling (set ?c) \<and> float_ne hi lo"
    then have ord: "totally_ordered (set ?c)" and reg: "regular_scaling (set ?c)"
      and ne: "float_ne hi lo"
      by simp_all
    from ne have c': "?c' = map (\<lambda>x. (x - lo) / (hi - lo)) ?c"
      by (simp only: if_True)
    from column_range [OF ord reg ne [unfolded lo_def hi_def], folded lo_def hi_def]
    show "0 \<in> set ?c' \<and> 1 \<in> set ?c' \<and> (\<forall>y\<in>set ?c'. 0 \<le> y \<and> y \<le> 1)"
      unfolding c' by (intro conjI)
  qed
  from 1 2 3 show ?thesis
    unfolding column_scaled.simps Let_def lo_def hi_def by (intro conjI)
qed

lemma normalizeWeights_per_column:
  fixes weights :: "('f::{zero,one,ord,minus,inverse}) mat"
  assumes rect: "rectangular weights"
  shows "\<exists>W'. normalizeWeights weights = Inr W' \<and> normalized_per_column weights W'"
proof (cases weights)
  case Nil
  then show ?thesis
    by (simp add: normalizeWeights_def normalized_per_column_def)
next
  case (Cons r0 rest)
  define d where "d = length r0"
  define lo where "lo = (\<lambda>j. fold (\<lambda>x acc. std_min acc x) (map (\<lambda>row. row ! j) rest) (r0 ! j))"
  define hi where "hi = (\<lambda>j. fold (\<lambda>x acc. std_max acc x) (map (\<lambda>row. row ! j) rest) (r0 ! j))"
  define W' where "W' = map (\<lambda>row. map (\<lambda>j. if float_ne (hi j) (lo j)
                                      then (row ! j - lo j) / (hi j - lo j) else row ! j)
                            [0..<d]) weights"
  from rect Cons have len: "length row = d" if "row \<in> set weights" for row
    using that by (auto simp: rectangular_def d_def list_all_iff)
  have res: "normalizeWeights weights = Inr W'"
    unfolding W'_def d_def lo_def hi_def by (rule normalizeWeights_rectangular [OF Cons rect])
  have lens: "map length W' = map length weights"
    by (simp add: W'_def len cong: map_cong)
  have col: "column_scaled (column weights j) (column W' j)" if j: "j < d" for j
  proof -
    have c: "column weights j = r0 ! j # map (\<lambda>row. row ! j) rest"
      by (simp add: column_def Cons)
    have "column W' j =
        map (\<lambda>x. if float_ne (hi j) (lo j) then (x - lo j) / (hi j - lo j) else x) (column weights j)"
      using j by (simp add: column_def W'_def)
    also have "\<dots> = (if float_ne (hi j) (lo j)
        then map (\<lambda>x. (x - lo j) / (hi j - lo j)) (column weights j) else column weights j)"
      by simp
    finally have c': "column W' j = (if float_ne (hi j) (lo j)
        then map (\<lambda>x. (x - lo j) / (hi j - lo j)) (r0 ! j # map (\<lambda>row. row ! j) rest)
        else r0 ! j # map (\<lambda>row. row ! j) rest)"
      by (simp only: c)
    show ?thesis
      unfolding c c' lo_def hi_def by (rule scaled_column)
  qed
  from Cons lens col have "normalized_per_column weights W'"
    by (simp add: normalized_per_column_def list_all_iff d_def)
  with res show ?thesis
    by blast
qed

subsection \<open>Arithmetics that are regular\<close>

text \<open>
  Exact arithmetic is regular on every set of numbers, and \<open>fnum\<close> is regular on every set
  of finite numbers whose differences do not overflow.
\<close>

lemma exact_arithmetic_regular:
  fixes A :: "('f::linordered_field) set"
  shows "totally_ordered A" "regular_scaling A"
proof -
  show "totally_ordered A"
    unfolding totally_ordered_def by (intro conjI ballI) auto
  show "regular_scaling A"
    unfolding regular_scaling_def by (intro ballI impI conjI) (simp_all add: divide_right_mono)
qed

lemma overflow_mono: "p \<le> q \<Longrightarrow> overflow p \<le> overflow q"
  by (simp add: overflow_def FLT_MAX_def)

lemma in_range_spreadD:
  assumes "in_range_spread A" "a \<in> A" "b \<in> A"
  obtains r s where "a = Fin r" "b = Fin s" "s - r \<le> FLT_MAX" "r - s \<le> FLT_MAX"
proof -
  from assms have "\<exists>r s. a = Fin r \<and> b = Fin s \<and> s - r \<le> FLT_MAX"
    and "\<exists>s r. b = Fin s \<and> a = Fin r \<and> r - s \<le> FLT_MAX"
    unfolding in_range_spread_def by blast+
  then show ?thesis
    using that by auto
qed

lemma in_range_minus:
  assumes "in_range_spread A" "Fin u \<in> A" "Fin r \<in> A"
  shows "Fin u - Fin r = Fin (u - r)"
proof -
  from in_range_spreadD [OF assms] have "u - r \<le> FLT_MAX" "r - u \<le> FLT_MAX"
    by auto
  then show ?thesis
    by (simp add: minus_fnum_def overflow_def)
qed

lemma fnum_regular:
  assumes A: "in_range_spread A"
  shows "totally_ordered A" "regular_scaling A"
proof -
  have fin: "\<exists>r. a = Fin r" if "a \<in> A" for a
    using in_range_spreadD [OF A that that] by blast
  show "totally_ordered A"
    unfolding totally_ordered_def
  proof (intro conjI ballI impI)
    fix a b assume "a \<in> A" "b \<in> A"
    with fin obtain r s where "a = Fin r" "b = Fin s" by blast
    then show "a \<le> b \<or> b \<le> a" "a < b \<longleftrightarrow> a \<le> b \<and> \<not> b \<le> a"
      by auto
  next
    fix a b c assume "a \<in> A" "b \<in> A" "c \<in> A" "a \<le> b \<and> b \<le> c"
    moreover from this fin obtain r s t where "a = Fin r" "b = Fin s" "c = Fin t" by blast
    ultimately show "a \<le> c" by simp
  qed
  show "regular_scaling A"
    unfolding regular_scaling_def
  proof (intro ballI impI)
    fix a b assume a: "a \<in> A" and b: "b \<in> A" and less: "a < b"
    from fin a b obtain r s where ab: "a = Fin r" "b = Fin s" by blast
    with less have rs: "r < s" by simp
    from in_range_minus [OF A] a b ab have d: "b - a = Fin (s - r)" and z: "a - a = Fin 0"
      by simp_all
    have one: "(b - a) / (b - a) = 1"
      using rs by (simp add: d one_fnum_def overflow_def FLT_MAX_def)
    have zero: "(a - a) / (b - a) = 0"
      using rs by (simp add: d z zero_fnum_def overflow_def FLT_MAX_def)
    have mono: "(x - a) / (b - a) \<le> (y - a) / (b - a)"
      if x: "x \<in> A" and y: "y \<in> A" and xy: "x \<le> y" for x y
    proof -
      from fin x y obtain u v where uv: "x = Fin u" "y = Fin v" by blast
      with xy have "u \<le> v" by simp
      with rs have "(u - r) / (s - r) \<le> (v - r) / (s - r)"
        by (simp add: divide_right_mono)
      then have "overflow ((u - r) / (s - r)) \<le> overflow ((v - r) / (s - r))"
        by (rule overflow_mono)
      moreover from in_range_minus [OF A] x y a uv ab
      have "x - a = Fin (u - r)" "y - a = Fin (v - r)"
        by simp_all
      ultimately show ?thesis
        using rs by (simp add: d)
    qed
    from one zero mono
    show "(b - a) / (b - a) = 1 \<and> (a - a) / (b - a) = 0 \<and>
        (\<forall>x\<in>A. \<forall>y\<in>A. x \<le> y \<longrightarrow> (x - a) / (b - a) \<le> (y - a) / (b - a))"
      by (intro conjI ballI impI)
  qed
qed

subsection \<open>The four matrices of the model\<close>

lemmas fnum_arith = zero_fnum_def one_fnum_def minus_fnum_def overflow_def FLT_MAX_def
  std_min_def std_max_def float_ne_def

lemmas fnum_eval = normalizeWeights_def scan_row_def scale_row_def fnum_arith upt_rec

text \<open>
  C4. (as amended) \<open>normalizeWeights\<close> normalizes each of the four weight matrices
  of the model on its own, column by column, and changes nothing else of the model. With
  \<open>min\<close> and \<open>max\<close> of a column as the first pass computes them, every entry \<open>x\<close> of a
  column with \<^verbatim>\<open>max != min\<close> is replaced by \<open>(x - min) / (max - min)\<close>, computed in the
  arithmetic of the program, and a column with \<^verbatim>\<open>max == min\<close> is left as it was. Where the
  entries of the column are ordered numbers (no NaN), \<open>min\<close> and \<open>max\<close> are its least and
  its greatest entry; where moreover the arithmetic is regular on the column (as it is in
  exact arithmetic, and in floating point when \<open>max - min\<close> does not overflow), a column
  that is not constant has minimum 0 and maximum 1 afterwards. The matrices are
  rectangular, as V by D matrices are (an empty matrix is).
\<close>

theorem normalizeWeights_per_column_of_each_matrix:
  fixes m :: "('f::{zero,one,ord,minus,inverse}) MonolingualModel"
  assumes "rectangular (input_weights m)" "rectangular (output_weights m)"
    and "rectangular (output_weights_hs m)" "rectangular (sent_weights m)"
  shows "\<exists>w_in w_out w_hs w_sent.
           MonolingualModel_normalizeWeights m =
             Inr (m\<lparr>input_weights := w_in, output_weights := w_out,
                    output_weights_hs := w_hs, sent_weights := w_sent\<rparr>) \<and>
           normalized_per_column (input_weights m) w_in \<and>
           normalized_per_column (output_weights m) w_out \<and>
           normalized_per_column (output_weights_hs m) w_hs \<and>
           normalized_per_column (sent_weights m) w_sent"
proof -
  from normalizeWeights_per_column [OF assms(1)] obtain w_in
    where 1: "normalizeWeights (input_weights m) = Inr w_in"
      "normalized_per_column (input_weights m) w_in"
    by (elim exE conjE)
  from normalizeWeights_per_column [OF assms(2)] obtain w_out
    where 2: "normalizeWeights (output_weights m) = Inr w_out"
      "normalized_per_column (output_weights m) w_out"
    by (elim exE conjE)
  from normalizeWeights_per_column [OF assms(3)] obtain w_hs
    where 3: "normalizeWeights (output_weights_hs m) = Inr w_hs"
      "normalized_per_column (output_weights_hs m) w_hs"
    by (elim exE conjE)
  from normalizeWeights_per_column [OF assms(4)] obtain w_sent
    where 4: "normalizeWeights (sent_weights m) = Inr w_sent"
      "normalized_per_column (sent_weights m) w_sent"
    by (elim exE conjE)
  from 1(1) 2(1) 3(1) 4(1) have "MonolingualModel_normalizeWeights m =
      Inr (m\<lparr>input_weights := w_in, output_weights := w_out,
             output_weights_hs := w_hs, sent_weights := w_sent\<rparr>)"
    by (simp add: MonolingualModel_normalizeWeights_def)
  with 1(2) 2(2) 3(2) 4(2) show ?thesis
    by (intro exI conjI)
qed

theorem normalizeWeights_per_column_of_each_matrix_witness:
  "rectangular (input_weights (fnum_model example_weights)) \<and>
   rectangular (output_weights (fnum_model example_weights)) \<and>
   rectangular (output_weights_hs (fnum_model example_weights)) \<and>
   rectangular (sent_weights (fnum_model example_weights)) \<and>
   MonolingualModel_normalizeWeights (fnum_model example_weights) =
     Inr (fnum_model [[Fin 0, Fin 5, Fin 1], [Fin 1, Fin 5, Fin 0], [Fin (1 / 2), Fin 5, Fin (1 / 2)]]) \<and>
   normalized_per_column example_weights
     [[Fin 0, Fin 5, Fin 1], [Fin 1, Fin 5, Fin 0], [Fin (1 / 2), Fin 5, Fin (1 / 2)]] \<and>
   column example_weights 0 = [Fin 1, Fin 3, Fin 2] \<and>
   in_range_spread (set [Fin 1, Fin 3, Fin 2]) \<and>
   totally_ordered (set [Fin 1, Fin 3, Fin 2]) \<and>
   regular_scaling (set [Fin 1, Fin 3, Fin 2])"
proof -
  let ?m = "fnum_model example_weights"
  let ?W' = "[[Fin 0, Fin 5, Fin 1], [Fin 1, Fin 5, Fin 0], [Fin (1 / 2), Fin 5, Fin (1 / 2)]]"
  have r: "rectangular (input_weights ?m)" "rectangular (output_weights ?m)"
    "rectangular (output_weights_hs ?m)" "rectangular (sent_weights ?m)"
    by (simp_all add: rectangular_def fnum_model_def example_weights_def)
  have run: "MonolingualModel_normalizeWeights ?m = Inr (fnum_model ?W')"
    by (simp add: MonolingualModel_normalizeWeights_def fnum_model_def example_weights_def
        fnum_eval)
  from normalizeWeights_per_column_of_each_matrix [OF r] obtain w_in w_out w_hs w_sent
    where "MonolingualModel_normalizeWeights ?m =
             Inr (?m\<lparr>input_weights := w_in, output_weights := w_out,
                     output_weights_hs := w_hs, sent_weights := w_sent\<rparr>)"
      and n: "normalized_per_column (input_weights ?m) w_in"
    by (elim exE conjE)
  with run have "w_in = ?W'"
    by (simp add: fnum_model_def)
  with n have norm: "normalized_per_column example_weights ?W'"
    by (simp add: fnum_model_def)
  have col: "column example_weights 0 = [Fin 1, Fin 3, Fin 2]"
    by (simp add: column_def example_weights_def)
  have spread: "in_range_spread (set [Fin 1, Fin 3, Fin 2])"
    by (simp add: in_range_spread_def FLT_MAX_def)
  from r run norm col spread fnum_regular [OF spread] show ?thesis
    by (intro conjI)
qed

text \<open>
  C4 as first stated promises minimum 0 and maximum 1 for every column that is not
  constant. The column \<open>2^127, -2^127, 0\<close> of finite numbers is not constant, yet
  \<open>max - min\<close> overflows to infinity, the column becomes \<open>NaN, 0, 0\<close> and holds no 1.
\<close>

theorem normalizeWeights_overflow:
  "rectangular overflow_weights \<and>
   float_ne (Fin 170141183460469231731687303715884105728)
            (Fin (- 170141183460469231731687303715884105728)) \<and>
   normalizeWeights overflow_weights = Inr [[NaN], [Fin 0], [Fin 0]] \<and>
   MonolingualModel_normalizeWeights (fnum_model overflow_weights) =
     Inr (fnum_model [[NaN], [Fin 0], [Fin 0]]) \<and>
   1 \<notin> set (column [[NaN], [Fin 0], [Fin 0]] 0)"
  by (simp add: rectangular_def overflow_weights_def fnum_eval column_def fnum_model_def
      MonolingualModel_normalizeWeights_def)

section \<open>similarity on normalized weights\<close>


section \<open>Counts in the Huffman tree\<close>

lemma sums_ok_count: "sums_ok t \<Longrightarrow> count (info t) = sum_list (leaf_counts t)"
  by (cases t) simp_all

lemma sums_ok_internal: "sums_ok l \<Longrightarrow> sums_ok r \<Longrightarrow> sums_ok (HuffmanNode_internal idx l r)"
  by (simp add: HuffmanNode_internal_def sums_ok_count)

lemma sums_ok_subtrees: "sums_ok t \<Longrightarrow> n \<in> set (subtrees t) \<Longrightarrow> sums_ok n"
  by (induction t) auto

lemma childless_sums_ok: "childless v \<Longrightarrow> sums_ok v"
  by (cases v) simp_all

lemma pop_min_sums_ok:
  "pop_min ls ns = Some (a, ls', ns') \<Longrightarrow> list_all sums_ok ls \<Longrightarrow> list_all sums_ok ns \<Longrightarrow>
     sums_ok a \<and> list_all sums_ok ls' \<and> list_all sums_ok ns'"
  by (induction ls ns rule: pop_min.induct) (auto split: if_splits)

lemma merge_loop_sums_ok:
  "merge_loop ls ns idx = Some t \<Longrightarrow> list_all sums_ok ls \<Longrightarrow> list_all sums_ok ns \<Longrightarrow> sums_ok t"
proof (induction ls ns idx rule: merge_loop.induct)
  case (1 ls ns idx)
  from "1.prems"(1) obtain a ls1 ns1 where first: "pop_min ls ns = Some (a, ls1, ns1)"
    by (cases "pop_min ls ns") (auto simp: merge_loop.simps [of ls ns idx])
  from pop_min_sums_ok [OF first "1.prems"(2,3)]
  have a: "sums_ok a" and ls1: "list_all sums_ok ls1" and ns1: "list_all sums_ok ns1"
    by simp_all
  show ?case
  proof (cases "pop_min ls1 ns1")
    case None
    with first "1.prems"(1) have "t = a"
      by (simp add: merge_loop.simps [of ls ns idx])
    with a show ?thesis by simp
  next
    case (Some r)
    then obtain b ls2 ns2 where second: "pop_min ls1 ns1 = Some (b, ls2, ns2)"
      by (cases r) auto
    from pop_min_sums_ok [OF second ls1 ns1]
    have b: "sums_ok b" and ls2: "list_all sums_ok ls2" and ns2: "list_all sums_ok ns2"
      by simp_all
    from first second "1.prems"(1)
    have run: "merge_loop ls2 (ns2 @ [HuffmanNode_internal idx a b]) (idx + 1) = Some t"
      by (simp add: merge_loop.simps [of ls ns idx])
    from a b ns2 have "list_all sums_ok (ns2 @ [HuffmanNode_internal idx a b])"
      by (simp add: sums_ok_internal)
    with "1.IH" [OF first refl refl second refl refl run ls2] show ?thesis
      by simp
  qed
qed

lemma sum_sint_nonneg:
  "list_all (\<lambda>c. 0 \<le> sint c) ws \<Longrightarrow> 0 \<le> sum_list (map sint ws)"
  by (induction ws) simp_all

lemma sint_sum_list:
  fixes ws :: "32 word list"
  assumes "list_all (\<lambda>c. 0 \<le> sint c) ws" "sum_list (map sint ws) < 2 ^ 31"
  shows "sint (sum_list ws) = sum_list (map sint ws)"
  using assms
proof (induction ws)
  case Nil
  then show ?case by simp
next
  case (Cons w ws)
  then have w: "0 \<le> sint w" and ws: "list_all (\<lambda>c. 0 \<le> sint c) ws"
    by simp_all
  from sum_sint_nonneg [OF ws] have rest: "0 \<le> sum_list (map sint ws)" .
  with w Cons.prems(2) have "sum_list (map sint ws) < 2 ^ 31"
    by simp
  with Cons.IH ws have ih: "sint (sum_list ws) = sum_list (map sint ws)"
    by simp
  from w rest Cons.prems(2) have "- (2 ^ 31) \<le> sint w + sum_list (map sint ws)"
    "sint w + sum_list (map sint ws) < 2 ^ 31"
    by simp_all
  then have "signed_take_bit 31 (sint w + sum_list (map sint ws)) = sint w + sum_list (map sint ws)"
    by (simp add: signed_take_bit_int_eq_self)
  with ih show ?case
    by (simp add: sint_word_ariths)
qed

lemma subtree_leaf_counts:
  "n \<in> set (subtrees t) \<Longrightarrow> \<exists>pre post. leaf_counts t = pre @ leaf_counts n @ post"
proof (induction t)
  case (Leaf f)
  then show ?case by (auto intro: exI [of _ "[]"])
next
  case (Internal f l r)
  from Internal.prems consider "n = Internal f l r" | "n \<in> set (subtrees l)" | "n \<in> set (subtrees r)"
    by auto
  then show ?case
  proof cases
    case 1
    then show ?thesis by (auto intro: exI [of _ "[]"])
  next
    case 2
    with Internal.IH(1) obtain pre post where "leaf_counts l = pre @ leaf_counts n @ post"
      by blast
    then have "leaf_counts (Internal f l r) = pre @ leaf_counts n @ (post @ leaf_counts r)"
      by simp
    then show ?thesis by blast
  next
    case 3
    with Internal.IH(2) obtain pre post where "leaf_counts r = pre @ leaf_counts n @ post"
      by blast
    then have "leaf_counts (Internal f l r) = (leaf_counts l @ pre) @ leaf_counts n @ post"
      by simp
    then show ?thesis by blast
  qed
qed

lemma createBinaryTree_sums_ok:
  assumes "list_all childless nodes" "createBinaryTree nodes = Some tree"
  shows "sums_ok tree"
proof -
  from assms(1) have "list_all sums_ok (rev (sort_key (\<lambda>v. - sint (count (info v))) nodes))"
    by (simp add: list_all_iff childless_sums_ok)
  with assms(2) show ?thesis
    unfolding createBinaryTree_def by (rule merge_loop_sums_ok) simp
qed

text \<open>
  C8. In every tree the builder produces from the vocabulary entries, the count
  stored at each node equals the sum of the counts of the leaves below it: as 32-bit
  values always, and as integers whenever the leaf counts are not negative and their
  sum fits the signed 32-bit range.
\<close>

theorem huffman_count_is_sum_of_leaf_counts:
  assumes "list_all childless nodes" "createBinaryTree nodes = Some tree"
    and "n \<in> set (subtrees tree)"
  shows "count (info n) = sum_list (leaf_counts n) \<and>
         (list_all (\<lambda>c. 0 \<le> sint c) (leaf_counts tree) \<and>
          sum_list (map sint (leaf_counts tree)) < 2 ^ 31 \<longrightarrow>
            sint (count (info n)) = sum_list (map sint (leaf_counts n)))"
proof -
  from createBinaryTree_sums_ok [OF assms(1,2)] assms(3) have "sums_ok n"
    by (rule sums_ok_subtrees)
  then have words: "count (info n) = sum_list (leaf_counts n)"
    by (rule sums_ok_count)
  have "sint (count (info n)) = sum_list (map sint (leaf_counts n))"
    if nonneg: "list_all (\<lambda>c. 0 \<le> sint c) (leaf_counts tree)"
      and fits: "sum_list (map sint (leaf_counts tree)) < 2 ^ 31"
  proof -
    from subtree_leaf_counts [OF assms(3)] obtain pre post
      where cut: "leaf_counts tree = pre @ leaf_counts n @ post"
      by blast
    with nonneg have parts: "list_all (\<lambda>c. 0 \<le> sint c) pre" "list_all (\<lambda>c. 0 \<le> sint c) (leaf_counts n)"
      "list_all (\<lambda>c. 0 \<le> sint c) post"
      by simp_all
    then have "0 \<le> sum_list (map sint pre)" "0 \<le> sum_list (map sint post)"
      by (simp_all add: sum_sint_nonneg)
    with fits cut have "sum_list (map sint (leaf_counts n)) < 2 ^ 31"
      by simp
    with parts(2) words show ?thesis
      by (simp add: sint_sum_list)
  qed
  with words show ?thesis
    by blast
qed

theorem huffman_count_is_sum_of_leaf_counts_witness:
  "list_all childless example_vocabulary \<and>
   createBinaryTree example_vocabulary =
     Some (HuffmanNode_internal 1 (counted_leaf 0 ''a'' 3)
            (HuffmanNode_internal 0 (counted_leaf 1 ''b'' 1) (counted_leaf 2 ''c'' 2))) \<and>
   HuffmanNode_internal 0 (counted_leaf 1 ''b'' 1) (counted_leaf 2 ''c'' 2)
     \<in> set (subtrees (HuffmanNode_internal 1 (counted_leaf 0 ''a'' 3)
            (HuffmanNode_internal 0 (counted_leaf 1 ''b'' 1) (counted_leaf 2 ''c'' 2)))) \<and>
   leaf_counts (HuffmanNode_internal 0 (counted_leaf 1 ''b'' 1) (counted_leaf 2 ''c'' 2)) = [1, 2] \<and>
   count (info (HuffmanNode_internal 0 (counted_leaf 1 ''b'' 1) (counted_leaf 2 ''c'' 2))) = 3 \<and>
   sint (count (info (HuffmanNode_internal 0 (counted_leaf 1 ''b'' 1) (counted_leaf 2 ''c'' 2)))) = 3"
proof -
  let ?inner = "HuffmanNode_internal 0 (counted_leaf 1 ''b'' 1) (counted_leaf 2 ''c'' 2)"
  let ?tree = "HuffmanNode_internal 1 (counted_leaf 0 ''a'' 3) ?inner"
  have leaves: "list_all childless example_vocabulary"
    by (simp add: example_vocabulary_def counted_leaf_def)
  have tree: "createBinaryTree example_vocabulary = Some ?tree"
    by (simp add: createBinaryTree_def merge_loop.simps example_vocabulary_def counted_leaf_def
        HuffmanNode_leaf_def HuffmanNode_internal_def HuffmanNode_comp_def)
  have sub: "?inner \<in> set (subtrees ?tree)"
    by (simp add: HuffmanNode_internal_def counted_leaf_def)
  have lc: "leaf_counts ?inner = [1, 2]" "leaf_counts ?tree = [3, 1, 2]"
    by (simp_all add: HuffmanNode_internal_def counted_leaf_def HuffmanNode_leaf_def)
  from huffman_count_is_sum_of_leaf_counts [OF leaves tree sub] leaves tree sub lc
  show ?thesis
    by simp
qed

end
